theory Spec2Isabelle
  imports Main "HOL-Library.Word" "HOL-Library.Signed_Division"
begin

unbundle bit_operations_syntax

section \<open>Machine types and constants\<close>

text \<open>
  The driver is built for the Jetson Nano (aarch64, LP64): \<open>int\<close> and \<open>unsigned int\<close>
  are 32 bits wide, \<open>long\<close>, \<open>unsigned long\<close>, \<open>size_t\<close> and the fields of
  \<open>struct timeval\<close> are 64 bits wide.  A value of either width is a machine word;
  signed operations read it through \<open>sint\<close>, unsigned ones through \<open>unat\<close>.
  Diagnostic output (\<open>printk\<close>, \<open>dprintk\<close>) and locking are not part of the model.
\<close>

type_synonym c_int = "32 word"
type_synonym c_uint = "32 word"
type_synonym c_long = "64 word"
type_synonym c_ulong = "64 word"

text \<open>C's \<open>/\<close> and \<open>%\<close> on \<open>long\<close> and \<open>int\<close> truncate towards zero.\<close>

definition sdiv_long :: "c_long \<Rightarrow> c_long \<Rightarrow> c_long" where
  "sdiv_long a b = word_of_int (sint a sdiv sint b)"

definition smod_int :: "c_int \<Rightarrow> c_int \<Rightarrow> c_int" where
  "smod_int a b = word_of_int (sint a smod sint b)"

text \<open>Constants of the source file.\<close>

definition RBUF_LEN :: nat where
  "RBUF_LEN = 256"

definition LIRC_TRANSMITTER_LATENCY :: c_long where
  "LIRC_TRANSMITTER_LATENCY = 50"

definition MAX_UDELAY_US :: c_ulong where
  "MAX_UDELAY_US = 5000"

definition LIRC_TEGRA_MAX_TRANSMITTERS :: nat where
  "LIRC_TEGRA_MAX_TRANSMITTERS = 8"

definition INVALID :: c_int where
  "INVALID = - 1"

definition DEFAULT_GPIO_IN_PIN :: c_int where
  "DEFAULT_GPIO_IN_PIN = 149"

definition DEFAULT_GPIO_OUT_PIN :: c_int where
  "DEFAULT_GPIO_OUT_PIN = 200"

text \<open>
  Constants the source takes from the kernel headers \<open>media/lirc.h\<close> and
  \<open>linux/errno.h\<close>, with the values those headers give them.
\<close>

definition PULSE_BIT :: c_int where
  "PULSE_BIT = 0x01000000"

definition PULSE_MASK :: c_int where
  "PULSE_MASK = 0x00FFFFFF"

definition EINVAL :: int where
  "EINVAL = 22"

definition EBUSY :: int where
  "EBUSY = 16"

definition ENODEV :: int where
  "ENODEV = 19"

definition ENOSYS :: int where
  "ENOSYS = 38"

definition ENOIOCTLCMD :: int where
  "ENOIOCTLCMD = 515"

section \<open>Driver state\<close>

record timeval =
  tv_sec :: c_long
  tv_usec :: c_long

text \<open>
  \<open>struct lirc_buffer\<close> of \<open>media/lirc_dev.h\<close>: a kfifo of chunks (here one \<open>int\<close>
  each, oldest first) and its capacity in chunks.
\<close>

record lirc_buffer =
  fifo :: "c_int list"
  buf_size :: nat

text \<open>
  The file-scope variables of the driver, and the function-scope statics of
  \<open>frbwrite\<close> (\<open>frb_pulse\<close>, \<open>frb_space\<close>, \<open>frb_ptr\<close>).
\<close>

record driver =
  gpio_in_pin :: c_int
  gpio_out_pin :: "c_int list"
  n_transmitters :: c_int
  sense :: c_int
  softcarrier :: bool
  invert :: bool
  tx_mask :: c_uint
  irq_num :: c_int
  lasttv :: timeval
  rbuf :: lirc_buffer
  freq :: c_uint
  duty_cycle :: c_uint
  period :: c_ulong
  pulse_width :: c_ulong
  space_width :: c_ulong
  frb_pulse :: c_int
  frb_space :: c_int
  frb_ptr :: c_uint

text \<open>
  The state at module load with the default parameters, after \<open>lirc_buffer_init\<close>
  has allocated the receive buffer.
\<close>

definition driver_init :: driver where
  "driver_init =
     \<lparr> gpio_in_pin = DEFAULT_GPIO_IN_PIN,
       gpio_out_pin = [DEFAULT_GPIO_OUT_PIN, INVALID, INVALID, INVALID,
                       INVALID, INVALID, INVALID, INVALID],
       n_transmitters = 1,
       sense = - 1,
       softcarrier = True,
       invert = False,
       tx_mask = 0xFFFFFFFF,
       irq_num = 0,
       lasttv = \<lparr> tv_sec = 0, tv_usec = 0 \<rparr>,
       rbuf = \<lparr> fifo = [], buf_size = RBUF_LEN \<rparr>,
       freq = 38000,
       duty_cycle = 50,
       period = 0,
       pulse_width = 0,
       space_width = 0,
       frb_pulse = 0,
       frb_space = 0,
       frb_ptr = 0 \<rparr>"

section \<open>Carrier timing engine\<close>

text \<open>
  \<open>init_timing_params\<close>.  The two guards are computed in \<open>long\<close>
  (\<open>1000 * 1000000L\<close> is a \<open>long\<close>; the \<open>unsigned int\<close> operands are converted to
  it), and \<open>100 - new_duty_cycle\<close> in \<open>unsigned int\<close>.  The stored widths are
  \<open>unsigned long\<close>.  The result is the returned \<open>int\<close> and the new state.
\<close>

definition init_timing_params :: "c_uint \<Rightarrow> c_uint \<Rightarrow> driver \<Rightarrow> int \<times> driver" where
  "init_timing_params new_duty_cycle new_freq d =
     (if 0 < new_freq then
        if sdiv_long (sdiv_long (1000 * 1000000) (ucast new_freq) * ucast new_duty_cycle) 100
             \<le>s LIRC_TRANSMITTER_LATENCY
        then (- EINVAL, d)
        else if sdiv_long (sdiv_long (1000 * 1000000) (ucast new_freq)
                             * ucast (100 - new_duty_cycle)) 100
             \<le>s LIRC_TRANSMITTER_LATENCY
        then (- EINVAL, d)
        else
          let d1 = d\<lparr> duty_cycle := new_duty_cycle \<rparr>;
              d2 = d1\<lparr> freq := new_freq \<rparr>;
              d3 = d2\<lparr> period := sdiv_long (1000 * 1000000) (ucast (freq d2)) \<rparr>;
              d4 = d3\<lparr> pulse_width := period d3 * ucast (duty_cycle d3) div 100 \<rparr>;
              d5 = d4\<lparr> space_width := period d4 - pulse_width d4 \<rparr>
          in (0, d5)
      else
        (0, d\<lparr> duty_cycle := ucast INVALID, freq := 0, period := scast INVALID,
               pulse_width := scast INVALID, space_width := scast INVALID \<rparr>))"


text \<open>
  The carrier parameters in the words of the specification: \<open>period = 1e9 / frequency\<close>,
  \<open>pulse_width = period * duty_cycle / 100\<close>, \<open>space_width = period - pulse_width\<close>,
  as \<open>unsigned long\<close> values.
\<close>

definition spec_period :: "c_uint \<Rightarrow> c_ulong" where
  "spec_period f = word_of_int (1000000000 div uint f)"

definition spec_pulse_width :: "c_uint \<Rightarrow> c_uint \<Rightarrow> c_ulong" where
  "spec_pulse_width dc f = spec_period f * ucast dc div 100"

definition spec_space_width :: "c_uint \<Rightarrow> c_uint \<Rightarrow> c_ulong" where
  "spec_space_width dc f = spec_period f - spec_pulse_width dc f"

text \<open>
  The space half-width as the second guard of \<open>init_timing_params\<close> computes it:
  \<open>period * (100 - duty_cycle) / 100\<close>, rounded down on its own.
\<close>

definition guard_space_width :: "c_uint \<Rightarrow> c_uint \<Rightarrow> c_ulong" where
  "guard_space_width dc f = spec_period f * ucast (100 - dc) div 100"

section \<open>Ring buffer\<close>

text \<open>
  Modelled from the spec: \<open>lirc_buffer_full\<close>, \<open>lirc_buffer_write\<close> and
  \<open>lirc_buffer_read\<close> are inline helpers of the kernel header \<open>media/lirc_dev.h\<close>,
  which is not part of the repository.  The specification describes the buffer as a
  fixed-capacity queue of fixed-width records, written by the producer and drained by
  the consumer in FIFO order, with an observable full state.
\<close>

definition lirc_buffer_full :: "lirc_buffer \<Rightarrow> bool" where
  "lirc_buffer_full b = (length (fifo b) = buf_size b)"

definition lirc_buffer_write :: "lirc_buffer \<Rightarrow> c_int \<Rightarrow> lirc_buffer" where
  "lirc_buffer_write b l =
     (if length (fifo b) < buf_size b then b\<lparr> fifo := fifo b @ [l] \<rparr> else b)"

definition lirc_buffer_read :: "lirc_buffer \<Rightarrow> (c_int \<times> lirc_buffer) option" where
  "lirc_buffer_read b =
     (case fifo b of [] \<Rightarrow> None | x # xs \<Rightarrow> Some (x, b\<lparr> fifo := xs \<rparr>))"

text \<open>The consumer reading until the buffer is empty.\<close>

function drain :: "lirc_buffer \<Rightarrow> c_int list" where
  "drain b = (case lirc_buffer_read b of None \<Rightarrow> [] | Some (x, b') \<Rightarrow> x # drain b')"
  by pat_completeness auto
termination
  by (relation "measure (\<lambda>b. length (fifo b))")
    (auto simp: lirc_buffer_read_def split: list.splits)

declare drain.simps [simp del]

text \<open>\<open>rbwrite\<close>: on a full buffer it returns at once; nothing is written anywhere.\<close>

definition rbwrite :: "c_int \<Rightarrow> driver \<Rightarrow> driver" where
  "rbwrite l d =
     (if lirc_buffer_full (rbuf d) then d
      else d\<lparr> rbuf := lirc_buffer_write (rbuf d) l \<rparr>)"

section \<open>Noise filter\<close>

text \<open>
  \<open>frbwrite\<close>.  \<open>pulse\<close>, \<open>space\<close> are \<open>int\<close> and compared signed; \<open>ptr\<close> is
  \<open>unsigned int\<close>.  The last line of the source, \<open>rbwrite(l)\<close>, is reached by every
  path that has not returned.
\<close>

definition frbwrite :: "c_int \<Rightarrow> driver \<Rightarrow> driver" where
  "frbwrite l d =
     (if 0 < frb_ptr d \<and> l AND PULSE_BIT \<noteq> 0 then
        let d1 = d\<lparr> frb_pulse := frb_pulse d + (l AND PULSE_MASK) \<rparr> in
        if 250 <s frb_pulse d1 then
          let d2 = rbwrite (frb_space d1) d1;
              d3 = rbwrite (frb_pulse d2 OR PULSE_BIT) d2
          in d3\<lparr> frb_ptr := 0, frb_pulse := 0 \<rparr>
        else d1
      else if l AND PULSE_BIT = 0 then
        if frb_ptr d = 0 then
          if 20000 <s l then d\<lparr> frb_space := l, frb_ptr := frb_ptr d + 1 \<rparr>
          else rbwrite l d
        else
          if 20000 <s l then
            let d1 = d\<lparr> frb_space := frb_space d + frb_pulse d \<rparr>;
                d2 = (if PULSE_MASK <s frb_space d1 then d1\<lparr> frb_space := PULSE_MASK \<rparr> else d1);
                d3 = d2\<lparr> frb_space := frb_space d2 + l \<rparr>;
                d4 = (if PULSE_MASK <s frb_space d3 then d3\<lparr> frb_space := PULSE_MASK \<rparr> else d3)
            in d4\<lparr> frb_pulse := 0 \<rparr>
          else
            let d1 = rbwrite (frb_space d) d;
                d2 = rbwrite (frb_pulse d1 OR PULSE_BIT) d1;
                d3 = d2\<lparr> frb_ptr := 0, frb_pulse := 0 \<rparr>
            in rbwrite l d3
      else rbwrite l d)"

section \<open>Receive decoder\<close>

text \<open>
  \<open>irq_handler\<close>, for the line level \<open>signal\<close> read from the input pin and the time
  \<open>tv\<close> read from \<open>do_gettimeofday\<close>.  \<open>irq_data\<close> is the three-way branch that
  sets \<open>data\<close> (and, in the long-gap branch, may flip \<open>sense\<close>); \<open>irq_record\<close> is
  the argument of the call \<open>frbwrite(signal^sense ? data : (data|PULSE_BIT))\<close>.
\<close>

definition irq_data :: "c_int \<Rightarrow> timeval \<Rightarrow> driver \<Rightarrow> c_int \<times> c_int" where
  "irq_data signal tv d =
     (let deltv = tv_sec tv - tv_sec (lasttv d) in
      if tv_sec tv <s tv_sec (lasttv d)
         \<or> (tv_sec tv = tv_sec (lasttv d) \<and> tv_usec tv <s tv_usec (lasttv d))
      then (PULSE_MASK, sense d)
      else if 15 <s deltv then
        (PULSE_MASK,
         if signal XOR sense d = 0 then (if sense d \<noteq> 0 then 0 else 1) else sense d)
      else (ucast (deltv * 1000000 + (tv_usec tv - tv_usec (lasttv d))), sense d))"

definition irq_record :: "c_int \<Rightarrow> timeval \<Rightarrow> driver \<Rightarrow> c_int" where
  "irq_record signal tv d =
     (let (data, sense') = irq_data signal tv d
      in if signal XOR sense' \<noteq> 0 then data else data OR PULSE_BIT)"

definition irq_handler :: "c_int \<Rightarrow> timeval \<Rightarrow> driver \<Rightarrow> driver" where
  "irq_handler signal tv d =
     (if sense d \<noteq> - 1 then
        let d1 = d\<lparr> sense := snd (irq_data signal tv d) \<rparr>;
            d2 = frbwrite (irq_record signal tv d) d1
        in d2\<lparr> lasttv := tv \<rparr>
      else d)"

text \<open>
  The elapsed time between two readings of the clock in microseconds, and the
  invariant of a \<open>struct timeval\<close> (seconds since the epoch, microseconds below a
  million).
\<close>

definition delta_us :: "timeval \<Rightarrow> timeval \<Rightarrow> int" where
  "delta_us prev tv =
     (sint (tv_sec tv) - sint (tv_sec prev)) * 1000000 + (sint (tv_usec tv) - sint (tv_usec prev))"

definition valid_tv :: "timeval \<Rightarrow> bool" where
  "valid_tv tv \<longleftrightarrow>
     0 \<le> sint (tv_sec tv) \<and> 0 \<le> sint (tv_usec tv) \<and> sint (tv_usec tv) < 1000000"

definition clock_regression :: "timeval \<Rightarrow> timeval \<Rightarrow> bool" where
  "clock_regression prev tv \<longleftrightarrow>
     sint (tv_sec tv) < sint (tv_sec prev)
     \<or> (sint (tv_sec tv) = sint (tv_sec prev) \<and> sint (tv_usec tv) < sint (tv_usec prev))"

text \<open>
  How a consumer reads a record (\<open>LIRC_VALUE\<close> and the pulse bit of
  \<open>media/lirc.h\<close>): the low 24 bits are the duration, bit 24 tags a pulse.
\<close>

definition record_value :: "c_int \<Rightarrow> c_int" where
  "record_value r = r AND PULSE_MASK"

definition record_is_pulse :: "c_int \<Rightarrow> bool" where
  "record_is_pulse r \<longleftrightarrow> r AND PULSE_BIT \<noteq> 0"

section \<open>Output lines and the clock\<close>

text \<open>
  The GPIO chip and the clock are outside the driver.  The model keeps the level last
  set on each line, the sequence of line writes and waits in the order they happen, and
  the readings the clock will give (\<open>clock h i\<close> is the \<open>i\<close>-th reading of
  \<open>read_current_us\<close>; nothing is assumed about them).
\<close>

datatype event = Set c_int bool | Udelay c_ulong | Msleep nat

record hw =
  levels :: "c_int \<Rightarrow> bool"
  trace :: "event list"
  clock :: "nat \<Rightarrow> c_ulong"
  reads :: nat

definition hw_init :: hw where
  "hw_init = \<lparr> levels = (\<lambda>_. False), trace = [], clock = (\<lambda>_. 0), reads = 0 \<rparr>"

definition gpio_set :: "c_int \<Rightarrow> bool \<Rightarrow> hw \<Rightarrow> hw" where
  "gpio_set pin v h = h\<lparr> levels := (levels h)(pin := v), trace := trace h @ [Set pin v] \<rparr>"

definition udelay :: "c_ulong \<Rightarrow> hw \<Rightarrow> hw" where
  "udelay usecs h = h\<lparr> trace := trace h @ [Udelay usecs] \<rparr>"

definition msleep :: "nat \<Rightarrow> hw \<Rightarrow> hw" where
  "msleep ms h = h\<lparr> trace := trace h @ [Msleep ms] \<rparr>"

definition read_current_us :: "hw \<Rightarrow> c_ulong \<times> hw" where
  "read_current_us h = (clock h (reads h), h\<lparr> reads := Suc (reads h) \<rparr>)"

definition transmitter_enabled :: "driver \<Rightarrow> nat \<Rightarrow> bool" where
  "transmitter_enabled d n = (tx_mask d AND push_bit n 1 \<noteq> 0)"

text \<open>
  The loop \<open>for (i = 0; i < n_transmitters; i++) if (transmitter_enabled(i)) set(...)\<close>
  with \<open>unsigned i\<close>, and the same loop over \<open>int i\<close> without the mask test.
\<close>

definition set_enabled :: "driver \<Rightarrow> bool \<Rightarrow> hw \<Rightarrow> hw" where
  "set_enabled d v h =
     fold (\<lambda>i h. if transmitter_enabled d i then gpio_set (gpio_out_pin d ! i) v h else h)
       [0..<unat (n_transmitters d)] h"

definition set_all :: "driver \<Rightarrow> bool \<Rightarrow> hw \<Rightarrow> hw" where
  "set_all d v h =
     fold (\<lambda>i h. gpio_set (gpio_out_pin d ! i) v h) [0..<nat (sint (n_transmitters d))] h"

function safe_udelay :: "c_ulong \<Rightarrow> hw \<Rightarrow> hw" where
  "safe_udelay usecs h =
     (if MAX_UDELAY_US < usecs then safe_udelay (usecs - MAX_UDELAY_US) (udelay MAX_UDELAY_US h)
      else udelay usecs h)"
  by pat_completeness auto
termination
  by (relation "measure (\<lambda>(usecs, h). unat usecs)")
    (auto simp: MAX_UDELAY_US_def word_less_nat_alt unat_sub_if')

declare safe_udelay.simps [simp del]

section \<open>Transmitter\<close>

text \<open>
  The loop of \<open>send_pulse_softcarrier\<close> on \<open>(actual, target, flag, actual_us)\<close> and
  the outside world.  It ends when the clock readings make \<open>actual\<close> reach \<open>len\<close>;
  a run that never ends has the value \<open>None\<close>.
\<close>

partial_function (option) softcarrier_loop ::
  "driver \<Rightarrow> c_ulong \<Rightarrow> c_ulong \<times> c_ulong \<times> bool \<times> c_ulong \<times> hw \<Rightarrow> (c_long \<times> hw) option" where
  [code]: "softcarrier_loop d len s =
     (case s of (actual, target, flag, actual_us, h) \<Rightarrow>
        if actual < len then
          let h1 = set_enabled d (\<not> (flag \<noteq> invert d)) h;
              target' = target + (if flag then space_width d else pulse_width d);
              initial_us = actual_us;
              target_us = actual_us + (target' - actual) div 1000;
              h2 = (if 0 <s (ucast (target_us - actual_us) :: c_int)
                    then udelay (target_us - actual_us) h1 else h1);
              (actual_us', h3) = read_current_us h2;
              actual' = actual + (actual_us' - initial_us) * 1000
          in softcarrier_loop d len (actual', target', \<not> flag, actual_us', h3)
        else Some ((actual - len) div 1000, h))"

definition send_pulse_softcarrier :: "c_ulong \<Rightarrow> driver \<Rightarrow> hw \<Rightarrow> (c_long \<times> hw) option" where
  "send_pulse_softcarrier len d h =
     (let len' = len * 1000;
          (actual_us, h1) = read_current_us h
      in softcarrier_loop d len' (0, 0, False, actual_us, h1))"

definition send_pulse :: "c_ulong \<Rightarrow> driver \<Rightarrow> hw \<Rightarrow> (c_long \<times> hw) option" where
  "send_pulse len d h =
     (if len \<le> 0 then Some (0, h)
      else if softcarrier d \<and> 0 < freq d then send_pulse_softcarrier len d h
      else Some (0, safe_udelay len (set_enabled d (\<not> invert d) h)))"

definition send_space :: "c_long \<Rightarrow> driver \<Rightarrow> hw \<Rightarrow> hw" where
  "send_space len d h =
     (let h1 = set_enabled d (invert d) h
      in if len \<le>s 0 then h1 else safe_udelay len h1)"

text \<open>
  The line writes that drive every enabled output line to the idle level, in the
  order of the transmitter index, and the events that are waits of \<open>udelay\<close>.
\<close>

definition idle_sets :: "driver \<Rightarrow> event list" where
  "idle_sets d =
     map (\<lambda>i. Set (gpio_out_pin d ! i) (invert d))
       (filter (transmitter_enabled d) [0..<unat (n_transmitters d)])"

definition is_udelay :: "event \<Rightarrow> bool" where
  "is_udelay e = (case e of Udelay _ \<Rightarrow> True | _ \<Rightarrow> False)"

text \<open>
  \<open>lirc_write\<close>.  \<open>n\<close> is the byte count; \<open>wbuf\<close> stands for the result of
  \<open>memdup_user(buf, n)\<close>: an error code, or the copied words (\<open>w i\<close> is \<open>wbuf[i]\<close>).
  The result is the returned \<open>ssize_t\<close> and the outside world afterwards.
\<close>

fun lirc_write_loop ::
  "driver \<Rightarrow> (nat \<Rightarrow> c_int) \<Rightarrow> nat list \<Rightarrow> c_long \<times> hw \<Rightarrow> (c_long \<times> hw) option" where
  "lirc_write_loop d w [] s = Some s"
| "lirc_write_loop d w (i # is) (delta, h) =
     (if i mod 2 \<noteq> 0 then lirc_write_loop d w is (delta, send_space (scast (w i) - delta) d h)
      else Option.bind (send_pulse (scast (w i)) d h) (lirc_write_loop d w is))"

definition lirc_write ::
  "c_ulong \<Rightarrow> int + (nat \<Rightarrow> c_int) \<Rightarrow> driver \<Rightarrow> hw \<Rightarrow> (int \<times> hw) option" where
  "lirc_write n wbuf d h =
     (let count = (ucast (n div 4) :: c_int) in
      if n mod 4 \<noteq> 0 \<or> smod_int count 2 = 0 then Some (- EINVAL, h)
      else case wbuf of
        Inl e \<Rightarrow> Some (e, h)
      | Inr w \<Rightarrow>
          Option.bind (lirc_write_loop d w [0..<nat (sint count)] (0, h))
            (\<lambda>(delta, h'). Some (sint n, set_all d (invert d) h')))"

section \<open>Control operations\<close>

datatype ioctl_cmd =
  LIRC_GET_SEND_MODE | LIRC_SET_SEND_MODE | LIRC_GET_LENGTH | LIRC_SET_SEND_DUTY_CYCLE
  | LIRC_SET_SEND_CARRIER | LIRC_SET_TRANSMITTER_MASK | OTHER_CMD

definition LIRC_MODE_PULSE :: c_uint where
  "LIRC_MODE_PULSE = 0x00000002"

text \<open>
  \<open>lirc_ioctl\<close>.  \<open>arg\<close> stands for the result of \<open>get_user(value, arg)\<close>: an error
  code, or the value read; \<open>fop\<close> is what \<open>lirc_dev_fop_ioctl\<close> returns for a
  command the driver hands over.
\<close>

definition lirc_ioctl :: "int \<Rightarrow> ioctl_cmd \<Rightarrow> int + c_uint \<Rightarrow> driver \<Rightarrow> int \<times> driver" where
  "lirc_ioctl fop cmd arg d =
     (case cmd of
        LIRC_GET_SEND_MODE \<Rightarrow> (- ENOIOCTLCMD, d)
      | LIRC_SET_SEND_MODE \<Rightarrow>
          (case arg of Inl e \<Rightarrow> (e, d)
           | Inr v \<Rightarrow> if v \<noteq> LIRC_MODE_PULSE then (- ENOSYS, d) else (0, d))
      | LIRC_GET_LENGTH \<Rightarrow> (- ENOSYS, d)
      | LIRC_SET_SEND_DUTY_CYCLE \<Rightarrow>
          (case arg of Inl e \<Rightarrow> (e, d)
           | Inr v \<Rightarrow> if v \<le> 0 \<or> 100 < v then (- EINVAL, d)
                      else init_timing_params v (freq d) d)
      | LIRC_SET_SEND_CARRIER \<Rightarrow>
          (case arg of Inl e \<Rightarrow> (e, d)
           | Inr v \<Rightarrow> if 500000 < v \<or> v < 0 then (- EINVAL, d)
                      else init_timing_params (duty_cycle d) v d)
      | LIRC_SET_TRANSMITTER_MASK \<Rightarrow>
          (case arg of Inl e \<Rightarrow> (e, d)
           | Inr v \<Rightarrow>
               if v AND (push_bit (unat (n_transmitters d)) 1 - 1) \<noteq> v
               then (sint (n_transmitters d), d)
               else (0, d\<lparr> tx_mask := v \<rparr>))
      | OTHER_CMD \<Rightarrow> (fop, d))"

text \<open>
  A mask value selects a line at or beyond the transmitter count \<open>n\<close> when one of
  its bits \<open>n\<close> to 31 is set.
\<close>

definition selects_beyond :: "c_uint \<Rightarrow> nat \<Rightarrow> bool" where
  "selects_beyond v n \<longleftrightarrow> (\<exists>i \<in> set [n..<32]. bit v i)"

section \<open>Sense calibrator\<close>

text \<open>
  \<open>init_port\<close>.  \<open>chip_found\<close> tells whether \<open>gpiochip_find\<close> returned a chip,
  \<open>to_irq\<close> is the interrupt number the chip gives for the input pin, and
  \<open>samples i\<close> is what the \<open>i\<close>-th call of \<open>gpiochip->get\<close> on the input pin
  returns.  The vote loop counts a non-zero reading in \<open>nlow\<close> and a zero reading in
  \<open>nhigh\<close>.
\<close>

definition vote :: "(nat \<Rightarrow> c_int) \<Rightarrow> nat \<Rightarrow> (c_int \<times> c_int) \<times> hw \<Rightarrow> (c_int \<times> c_int) \<times> hw" where
  "vote samples i s =
     (case s of ((nlow, nhigh), h) \<Rightarrow>
        ((if samples i \<noteq> 0 then (nlow + 1, nhigh) else (nlow, nhigh + 1)), msleep 40 h))"

definition init_port ::
  "bool \<Rightarrow> c_int \<Rightarrow> (nat \<Rightarrow> c_int) \<Rightarrow> driver \<Rightarrow> hw \<Rightarrow> int \<times> driver \<times> hw" where
  "init_port chip_found to_irq samples d h =
     (if \<not> chip_found then (- ENODEV, d, h)
      else
        let h1 = set_all d (invert d) h;
            d1 = d\<lparr> irq_num := to_irq \<rparr>
        in if sense d1 = - 1 then
             let h2 = msleep 500 h1;
                 ((nlow, nhigh), h3) = fold (vote samples) [0..<9] ((0, 0), h2)
             in (0, d1\<lparr> sense := (if nhigh \<le>s nlow then 1 else 0) \<rparr>, h3)
           else (0, d1, h1))"

text \<open>The number of readings, among the nine, that found the line high, and low.\<close>

definition count_high :: "(nat \<Rightarrow> c_int) \<Rightarrow> nat" where
  "count_high samples = length (filter (\<lambda>i. samples i \<noteq> 0) [0..<9])"

definition count_low :: "(nat \<Rightarrow> c_int) \<Rightarrow> nat" where
  "count_low samples = length (filter (\<lambda>i. samples i = 0) [0..<9])"

text \<open>
  \<open>set_use_inc\<close>, called when the device is opened: \<open>now\<close> is the time read by
  \<open>do_gettimeofday\<close> and \<open>result\<close> what \<open>request_irq\<close> returns.  The value
  \<open>init_timing_params\<close> returns is ignored.
\<close>

definition set_use_inc :: "timeval \<Rightarrow> int \<Rightarrow> driver \<Rightarrow> int \<times> driver" where
  "set_use_inc now result d =
     (let d1 = d\<lparr> lasttv := now \<rparr> in
      if result = - EBUSY then (- EBUSY, d1)
      else if result = - EINVAL then (- EINVAL, d1)
      else (0, snd (init_timing_params (duty_cycle d1) (freq d1) d1)))"

section \<open>Arithmetic of the carrier timing engine\<close>

lemma sint_long_of_int: "0 \<le> k \<Longrightarrow> k < 2 ^ 63 \<Longrightarrow> sint (word_of_int k :: 64 word) = k"
  by (simp add: sint_sbintrunc' signed_take_bit_int_eq_self)

lemma uint_long_of_int: "0 \<le> k \<Longrightarrow> k < 2 ^ 64 \<Longrightarrow> uint (word_of_int k :: 64 word) = k"
  by (simp add: uint_word_of_int take_bit_int_eq_self)

lemma uint_lt32: "uint (x :: 32 word) < 4294967296"
  using uint_bounded [of x] by simp

lemma ucast_32_64_eq: "(ucast (x :: 32 word) :: 64 word) = word_of_int (uint x)"
  by simp

lemma sint_ucast_32_64: "sint (ucast (x :: 32 word) :: 64 word) = uint x"
proof -
  have "uint x < 2 ^ 63" using uint_lt32 [of x] by simp
  then have "sint (word_of_int (uint x) :: 64 word) = uint x"
    by (intro sint_long_of_int) simp_all
  then show ?thesis by simp
qed

lemma sdiv_nonneg: "0 \<le> k \<Longrightarrow> 0 \<le> l \<Longrightarrow> (k :: int) sdiv l = k div l"
  by (cases "k = 0"; cases "l = 0") (simp_all add: signed_divide_int_def sgn_if)

lemma period_word:
  "sdiv_long (1000 * 1000000) (ucast (f :: 32 word)) = word_of_int (1000000000 div uint f)"
  unfolding sdiv_long_def by (simp add: sint_ucast_32_64 sdiv_nonneg)

lemma period_word':
  "sdiv_long 1000000000 (ucast (f :: 32 word)) = word_of_int (1000000000 div uint f)"
  using period_word [of f] by simp

lemma period_bounds:
  "0 \<le> 1000000000 div uint (f :: 32 word)" "1000000000 div uint f \<le> 1000000000"
proof -
  have nonneg: "0 \<le> uint f" by simp
  then show "0 \<le> 1000000000 div uint f"
    by (cases "uint f = 0") (simp_all add: pos_imp_zdiv_nonneg_iff less_le)
  show "1000000000 div uint f \<le> 1000000000"
  proof (cases "uint f = 0")
    case True
    then show ?thesis by simp
  next
    case False
    then have "1 \<le> uint f" using nonneg by linarith
    then have "1000000000 div uint f \<le> 1000000000 div 1"
      by (intro zdiv_mono2) simp_all
    then show ?thesis by simp
  qed
qed

lemma prod_bound:
  assumes "0 \<le> p" "p \<le> 1000000000"
  shows "0 \<le> p * uint (x :: 32 word)" "p * uint x < 2 ^ 62"
proof -
  show "0 \<le> p * uint x" using assms by simp
  have "p * uint x \<le> 1000000000 * 4294967296"
    using assms uint_lt32 [of x] by (intro mult_mono) simp_all
  then show "p * uint x < 2 ^ 62" by simp
qed

lemma long_mult_ucast:
  "(word_of_int p :: 64 word) * ucast (x :: 32 word) = word_of_int (p * uint x)"
  by (simp only: ucast_32_64_eq wi_hom_mult)

lemma guard_sint:
  assumes "0 \<le> p" "p \<le> 1000000000"
  shows "sint (sdiv_long (word_of_int p * ucast (x :: 32 word)) 100) = p * uint x div 100"
proof -
  note b = prod_bound [OF assms, of x]
  have s: "sint (word_of_int (p * uint x) :: 64 word) = p * uint x"
    using b by (intro sint_long_of_int) simp_all
  have q: "0 \<le> p * uint x div 100" "p * uint x div 100 < 2 ^ 63"
    using b by (simp_all add: pos_imp_zdiv_nonneg_iff)
  show ?thesis
    unfolding sdiv_long_def long_mult_ucast s
    using b q by (simp add: sdiv_nonneg sint_long_of_int)
qed

lemma pulse_uint:
  assumes "0 \<le> p" "p \<le> 1000000000"
  shows "uint ((word_of_int p :: 64 word) * ucast (x :: 32 word) div 100) = p * uint x div 100"
proof -
  note b = prod_bound [OF assms, of x]
  have s: "uint (word_of_int (p * uint x) :: 64 word) = p * uint x"
    using b by (intro uint_long_of_int) simp_all
  show ?thesis
    unfolding long_mult_ucast by (simp only: uint_div s) simp
qed


lemma uint_spec_pulse_width:
  "uint (spec_pulse_width dc f) = 1000000000 div uint f * uint dc div 100"
  unfolding spec_pulse_width_def spec_period_def
  by (rule pulse_uint) (rule period_bounds)+

lemma uint_guard_space_width:
  "uint (guard_space_width dc f) = 1000000000 div uint f * uint (100 - dc) div 100"
  unfolding guard_space_width_def spec_period_def
  by (rule pulse_uint) (rule period_bounds)+

text \<open>The two guards of \<open>init_timing_params\<close>, read as unsigned comparisons.\<close>

lemma guard1_iff:
  "sdiv_long (sdiv_long (1000 * 1000000) (ucast f) * ucast dc) 100 \<le>s LIRC_TRANSMITTER_LATENCY
     \<longleftrightarrow> spec_pulse_width dc f \<le> 50"
  unfolding period_word word_sle_eq guard_sint [OF period_bounds] LIRC_TRANSMITTER_LATENCY_def
    word_le_def uint_spec_pulse_width
  by simp

lemma guard2_iff:
  "sdiv_long (sdiv_long (1000 * 1000000) (ucast f) * ucast (100 - dc)) 100
       \<le>s LIRC_TRANSMITTER_LATENCY
     \<longleftrightarrow> guard_space_width dc f \<le> 50"
  unfolding period_word word_sle_eq guard_sint [OF period_bounds] LIRC_TRANSMITTER_LATENCY_def
    word_le_def uint_guard_space_width
  by simp

lemma init_timing_params_eq:
  "init_timing_params dc f d =
     (if 0 < f then
        if spec_pulse_width dc f \<le> 50 \<or> guard_space_width dc f \<le> 50 then (- EINVAL, d)
        else (0, d\<lparr> duty_cycle := dc, freq := f, period := spec_period f,
                    pulse_width := spec_pulse_width dc f,
                    space_width := spec_space_width dc f \<rparr>)
      else (0, d\<lparr> duty_cycle := - 1, freq := 0, period := - 1,
                  pulse_width := - 1, space_width := - 1 \<rparr>))"
  unfolding init_timing_params_def guard1_iff guard2_iff
  by (simp add: Let_def period_word' guard_space_width_def spec_pulse_width_def
      spec_space_width_def spec_period_def INVALID_def)



section \<open>Carrier timing engine: rejection and acceptance\<close>





text \<open>
  C7, as the claim states it, fails: with a duty cycle of 99 and a frequency of
  198019 Hz the period is 5050, the derived pulse width 4999 and the derived space
  width 51, both above the latency of 50, and \<open>init_timing_params\<close> returns
  \<open>-EINVAL\<close>: its second guard computes \<open>5050 * 1 / 100 = 50\<close>.
\<close>

theorem init_timing_params_duty_99_rejected:
  "0 < (198019 :: c_uint) \<and> 50 < spec_pulse_width 99 198019
   \<and> 50 < spec_space_width 99 198019
   \<and> init_timing_params 99 198019 driver_init = (- EINVAL, driver_init)"
  by (simp add: init_timing_params_eq spec_pulse_width_def spec_space_width_def
      spec_period_def guard_space_width_def)

text \<open>
  C7, amended: for every pair with frequency above zero for which the pulse width
  \<open>period * duty_cycle / 100\<close> and the space half-width as the guard computes it,
  \<open>period * (100 - duty_cycle) / 100\<close>, both exceed the minimum transmitter latency,
  \<open>init_timing_params\<close> returns 0 and stores the duty cycle, the frequency,
  \<open>period = 1e9 / frequency\<close>, \<open>pulse_width = period * duty_cycle / 100\<close> and
  \<open>space_width = period - pulse_width\<close>, so that
  \<open>pulse_width + space_width = period\<close> exactly.
\<close>

theorem init_timing_params_accepts:
  assumes "0 < f" and "50 < spec_pulse_width dc f" and "50 < guard_space_width dc f"
  shows "init_timing_params dc f d =
           (0, d\<lparr> duty_cycle := dc, freq := f, period := spec_period f,
                    pulse_width := spec_pulse_width dc f,
                    space_width := spec_space_width dc f \<rparr>)
         \<and> spec_pulse_width dc f + spec_space_width dc f = spec_period f"
  using assms by (simp add: init_timing_params_eq spec_space_width_def not_le [symmetric])

theorem init_timing_params_accepts_witness:
  "0 < (38000 :: c_uint) \<and> 50 < spec_pulse_width 50 38000 \<and> 50 < guard_space_width 50 38000
   \<and> init_timing_params 50 38000 driver_init =
       (0, driver_init\<lparr> duty_cycle := 50, freq := 38000, period := 26315,
                         pulse_width := 13157, space_width := 13158 \<rparr>)
   \<and> (13157 :: c_ulong) + 13158 = 26315"
proof -
  have f: "0 < (38000 :: c_uint)" by simp
  have p: "50 < spec_pulse_width 50 38000"
    by (simp add: spec_pulse_width_def spec_period_def)
  have g: "50 < guard_space_width 50 38000"
    by (simp add: guard_space_width_def spec_period_def)
  have v: "spec_period 38000 = 26315" "spec_pulse_width 50 38000 = 13157"
    "spec_space_width 50 38000 = 13158"
    by (simp_all add: spec_space_width_def spec_pulse_width_def spec_period_def)
  show ?thesis
    using f p g init_timing_params_accepts [OF f p g, of driver_init] by (simp add: v)
qed

section \<open>Ring buffer: overflow\<close>

lemma rbwrite_frb [simp]:
  "frb_pulse (rbwrite l d) = frb_pulse d" "frb_space (rbwrite l d) = frb_space d"
  "frb_ptr (rbwrite l d) = frb_ptr d"
  by (simp_all add: rbwrite_def)

lemma rbwrite_sense [simp]: "sense (rbwrite l d) = sense d"
  by (simp add: rbwrite_def)

lemma rbwrite_frb_update:
  "rbwrite l (d\<lparr> frb_pulse := p \<rparr>) = (rbwrite l d)\<lparr> frb_pulse := p \<rparr>"
  "rbwrite l (d\<lparr> frb_space := s \<rparr>) = (rbwrite l d)\<lparr> frb_space := s \<rparr>"
  "rbwrite l (d\<lparr> frb_ptr := q \<rparr>) = (rbwrite l d)\<lparr> frb_ptr := q \<rparr>"
  by (simp_all add: rbwrite_def)

lemma drain_fifo: "drain b = fifo b"
proof (induction "fifo b" arbitrary: b)
  case Nil
  then show ?case by (subst drain.simps) (simp add: lirc_buffer_read_def)
next
  case (Cons x xs)
  from Cons(2) have "fifo b = x # xs" by simp
  moreover have "drain (b\<lparr> fifo := xs \<rparr>) = fifo (b\<lparr> fifo := xs \<rparr>)"
    by (rule Cons(1)) simp
  ultimately show ?case by (subst drain.simps) (simp add: lirc_buffer_read_def)
qed

lemma rbwrite_full: "lirc_buffer_full (rbuf d) \<Longrightarrow> rbwrite l d = d"
  by (simp add: rbwrite_def)

lemma fold_rbwrite_room:
  "length (fifo (rbuf d)) + length xs \<le> buf_size (rbuf d) \<Longrightarrow>
     fold rbwrite xs d = d\<lparr> rbuf := (rbuf d)\<lparr> fifo := fifo (rbuf d) @ xs \<rparr> \<rparr>"
proof (induction xs arbitrary: d)
  case Nil
  then show ?case by simp
next
  case (Cons x xs)
  let ?d = "rbwrite x d"
  have step: "?d = d\<lparr> rbuf := (rbuf d)\<lparr> fifo := fifo (rbuf d) @ [x] \<rparr> \<rparr>"
    using Cons.prems by (simp add: rbwrite_def lirc_buffer_full_def lirc_buffer_write_def)
  have "fold rbwrite xs ?d = ?d\<lparr> rbuf := (rbuf ?d)\<lparr> fifo := fifo (rbuf ?d) @ xs \<rparr> \<rparr>"
    by (rule Cons.IH) (use Cons.prems step in simp)
  then show ?case by (simp add: step)
qed

text \<open>
  C4, as the claim states it, fails in one part: no overflow flag is set.  A write
  into a full buffer returns the driver state exactly as it was, so nothing that a
  consumer could observe records the overflow (\<open>rbwrite\<close> only prints a debug
  message).  Here the buffer of capacity 2 holds two records and a third is written.
\<close>

theorem rbwrite_full_sets_no_flag:
  "lirc_buffer_full (rbuf (driver_init\<lparr> rbuf := \<lparr> fifo = [1, 2], buf_size = 2 \<rparr> \<rparr>))
   \<and> rbwrite 3 (driver_init\<lparr> rbuf := \<lparr> fifo = [1, 2], buf_size = 2 \<rparr> \<rparr>)
       = driver_init\<lparr> rbuf := \<lparr> fifo = [1, 2], buf_size = 2 \<rparr> \<rparr>"
  by (simp add: rbwrite_def lirc_buffer_full_def)

text \<open>
  C4, amended: for every write into the ring buffer while it is full, the newest
  record is silently dropped: the write returns at once and the stored contents, like
  all other driver state, are unchanged (there is no overflow flag).  Writing \<open>N + 1\<close>
  records into an empty buffer of capacity \<open>N\<close> fills it with the first \<open>N\<close>,
  drops the last one, and draining yields exactly the first \<open>N\<close> records in FIFO
  order.
\<close>

theorem rbwrite_overflow:
  "(lirc_buffer_full (rbuf d) \<longrightarrow> rbwrite l d = d)
   \<and> (fifo (rbuf e) = [] \<and> length xs = buf_size (rbuf e) \<longrightarrow>
        lirc_buffer_full (rbuf (fold rbwrite xs e))
        \<and> fold rbwrite (xs @ [x]) e = fold rbwrite xs e
        \<and> drain (rbuf (fold rbwrite (xs @ [x]) e)) = xs)"
proof (intro conjI impI)
  assume "lirc_buffer_full (rbuf d)"
  then show "rbwrite l d = d" by (rule rbwrite_full)
next
  assume a: "fifo (rbuf e) = [] \<and> length xs = buf_size (rbuf e)"
  then have f: "fold rbwrite xs e = e\<lparr> rbuf := (rbuf e)\<lparr> fifo := xs \<rparr> \<rparr>"
    using fold_rbwrite_room [of e xs] by simp
  show full: "lirc_buffer_full (rbuf (fold rbwrite xs e))"
    using a by (simp add: f lirc_buffer_full_def)
  show drop: "fold rbwrite (xs @ [x]) e = fold rbwrite xs e"
    using full by (simp add: rbwrite_full)
  show "drain (rbuf (fold rbwrite (xs @ [x]) e)) = xs"
    unfolding drop by (simp add: f drain_fifo)
qed

theorem rbwrite_overflow_witness:
  "lirc_buffer_full (rbuf (driver_init\<lparr> rbuf := \<lparr> fifo = [1, 2], buf_size = 2 \<rparr> \<rparr>))
   \<and> rbwrite 3 (driver_init\<lparr> rbuf := \<lparr> fifo = [1, 2], buf_size = 2 \<rparr> \<rparr>)
       = driver_init\<lparr> rbuf := \<lparr> fifo = [1, 2], buf_size = 2 \<rparr> \<rparr>
   \<and> fifo (rbuf (driver_init\<lparr> rbuf := \<lparr> fifo = [], buf_size = 2 \<rparr> \<rparr>)) = []
   \<and> length [10, 20 :: c_int]
       = buf_size (rbuf (driver_init\<lparr> rbuf := \<lparr> fifo = [], buf_size = 2 \<rparr> \<rparr>))
   \<and> drain (rbuf (fold rbwrite ([10, 20] @ [30])
         (driver_init\<lparr> rbuf := \<lparr> fifo = [], buf_size = 2 \<rparr> \<rparr>))) = [10, 20]"
proof -
  let ?full = "driver_init\<lparr> rbuf := \<lparr> fifo = [1, 2], buf_size = 2 \<rparr> \<rparr>"
  let ?empty = "driver_init\<lparr> rbuf := \<lparr> fifo = [], buf_size = 2 \<rparr> \<rparr>"
  have h1: "lirc_buffer_full (rbuf ?full)" by (simp add: lirc_buffer_full_def)
  have h2: "fifo (rbuf ?empty) = [] \<and> length [10, 20 :: c_int] = buf_size (rbuf ?empty)"
    by simp
  note t = rbwrite_overflow [of ?full 3 ?empty "[10, 20]" 30]
  from t h1 have c1: "rbwrite 3 ?full = ?full" by blast
  from t h2 have c2: "drain (rbuf (fold rbwrite ([10, 20] @ [30]) ?empty)) = [10, 20]" by blast
  show ?thesis using h1 h2 c1 c2 by blast
qed

section \<open>Noise filter: a glitch inside a long gap\<close>

text \<open>
  C8: from its reset state the noise filter, fed \<open>SPACE 25000\<close>, \<open>PULSE 100\<close>,
  \<open>SPACE 1000\<close>, writes nothing downstream on the first and on the second input
  (the receive buffer stays as it was), and on the third input calls \<open>rbwrite\<close>
  with \<open>25000\<close>, then \<open>100 | PULSE_BIT\<close>, then \<open>1000\<close>, in that order.  On the
  empty buffer of the freshly loaded driver these are exactly the three records
  stored.
\<close>

theorem frbwrite_space_pulse_space:
  "rbuf (frbwrite 25000 (d\<lparr> frb_pulse := 0, frb_space := 0, frb_ptr := 0 \<rparr>)) = rbuf d
   \<and> rbuf (frbwrite (100 OR PULSE_BIT)
            (frbwrite 25000 (d\<lparr> frb_pulse := 0, frb_space := 0, frb_ptr := 0 \<rparr>))) = rbuf d
   \<and> rbuf (frbwrite 1000 (frbwrite (100 OR PULSE_BIT)
            (frbwrite 25000 (d\<lparr> frb_pulse := 0, frb_space := 0, frb_ptr := 0 \<rparr>))))
       = rbuf (rbwrite 1000 (rbwrite (100 OR PULSE_BIT) (rbwrite 25000 d)))
   \<and> (100 OR PULSE_BIT) AND PULSE_BIT \<noteq> 0
   \<and> fifo (rbuf (frbwrite 1000 (frbwrite (100 OR PULSE_BIT) (frbwrite 25000 driver_init))))
       = [25000, 100 OR PULSE_BIT, 1000]"
  apply (intro conjI)
  apply (simp add: frbwrite_def PULSE_BIT_def PULSE_MASK_def Let_def)
  apply (simp add: frbwrite_def PULSE_BIT_def PULSE_MASK_def Let_def)
  apply (simp add: frbwrite_def PULSE_BIT_def PULSE_MASK_def Let_def rbwrite_frb_update)
    apply (simp add: rbwrite_def)
  apply (simp add:  PULSE_BIT_def)
  apply (simp add: frbwrite_def PULSE_BIT_def PULSE_MASK_def Let_def rbwrite_def driver_init_def lirc_buffer_full_def lirc_buffer_write_def RBUF_LEN_def)
  done

section \<open>Receive decoder: the record of an edge\<close>

lemma PULSE_MASK_mask: "PULSE_MASK = mask 24"
  by (simp add: PULSE_MASK_def mask_eq_exp_minus_1)

lemma record_value_small: "uint r < 2 ^ 24 \<Longrightarrow> record_value r = r"
  by (simp add: record_value_def PULSE_MASK_mask mask_eq_iff)

lemma record_value_tagged [simp]: "record_value (r OR PULSE_BIT) = record_value r"
proof -
  have "PULSE_BIT AND PULSE_MASK = 0" by (simp add: PULSE_BIT_def PULSE_MASK_def)
  then show ?thesis by (simp add: record_value_def bit.conj_disj_distrib2)
qed

lemma record_is_pulse_tagged [simp]: "record_is_pulse (r OR PULSE_BIT)"
proof -
  have "(r OR PULSE_BIT) AND PULSE_BIT = PULSE_BIT" by (simp add: word_ao_absorbs)
  then show ?thesis by (simp add: record_is_pulse_def PULSE_BIT_def)
qed

lemma record_is_pulse_small: "uint r < 2 ^ 24 \<Longrightarrow> \<not> record_is_pulse r"
proof -
  assume "uint r < 2 ^ 24"
  then have "r AND PULSE_MASK = r" by (simp add: PULSE_MASK_mask mask_eq_iff)
  then have "r AND PULSE_BIT = (r AND PULSE_MASK) AND PULSE_BIT" by simp
  also have "\<dots> = r AND (PULSE_MASK AND PULSE_BIT)" by (simp only: and.assoc)
  also have "\<dots> = 0" by (simp add: PULSE_MASK_def PULSE_BIT_def)
  finally show ?thesis by (simp add: record_is_pulse_def)
qed

lemma sint_long_diff:
  assumes "0 \<le> sint (a :: 64 word)" "0 \<le> sint (b :: 64 word)"
  shows "sint (a - b) = sint a - sint b"
proof -
  have "sint a < 2 ^ 63" "sint b < 2 ^ 63" using sint_lt [of a] sint_lt [of b] by simp_all
  then have "- (2 ^ 63) \<le> sint a - sint b" "sint a - sint b < 2 ^ 63" using assms by linarith+
  then show ?thesis by (simp add: sint_word_diff signed_take_bit_int_eq_self)
qed

lemma long_time_word:
  "(s :: 64 word) * 1000000 + (u - v) = word_of_int (sint s * 1000000 + (sint u - sint v))"
  by simp

lemma ucast_long_int: "(ucast (word_of_int k :: 64 word) :: 32 word) = word_of_int k"
  by (simp add: unsigned_of_int word_of_int_eq_iff take_bit_take_bit)

lemma uint_int_of_small: "0 \<le> k \<Longrightarrow> k < 2 ^ 32 \<Longrightarrow> uint (word_of_int k :: 32 word) = k"
  by (simp add: uint_word_of_int take_bit_int_eq_self)

lemma regress_iff:
  "tv_sec tv <s tv_sec prev \<or> (tv_sec tv = tv_sec prev \<and> tv_usec tv <s tv_usec prev)
     \<longleftrightarrow> clock_regression prev tv"
  by (auto simp: clock_regression_def word_sless_alt intro: signed_word_eqI)

lemma data_word:
  assumes "sint ((a :: 64 word) - b) = sint a - sint b"
  shows "(ucast ((a - b) * 1000000 + (u - v)) :: 32 word)
           = word_of_int ((sint a - sint b) * 1000000 + (sint u - sint v))"
  unfolding long_time_word ucast_long_int assms ..

text \<open>The record handed to the noise filter when the second counter has advanced by at most 15.\<close>

lemma irq_data_normal:
  assumes "valid_tv (lasttv d)" "valid_tv tv" "\<not> clock_regression (lasttv d) tv"
    and "sint (tv_sec tv) - sint (tv_sec (lasttv d)) \<le> 15"
  shows "irq_data signal tv d = (word_of_int (delta_us (lasttv d) tv), sense d)"
proof -
  have d: "sint (tv_sec tv - tv_sec (lasttv d)) = sint (tv_sec tv) - sint (tv_sec (lasttv d))"
    using assms(1,2) by (intro sint_long_diff) (simp_all add: valid_tv_def)
  have "\<not> 15 <s tv_sec tv - tv_sec (lasttv d)"
    using assms(4) by (simp add: word_sless_alt d)
  then show ?thesis
    using assms(3)
    unfolding irq_data_def Let_def data_word [OF d] regress_iff delta_us_def
    by simp
qed

lemma delta_us_bounds:
  assumes "valid_tv prev" "valid_tv tv" "\<not> clock_regression prev tv"
    and "sint (tv_sec tv) - sint (tv_sec prev) \<le> 15"
  shows "0 \<le> delta_us prev tv" "delta_us prev tv < 16000000"
  using assms by (auto simp: delta_us_def valid_tv_def clock_regression_def)

lemma timeout_seconds:
  assumes "valid_tv prev" "valid_tv tv" "delta_us prev tv \<le> 15000000"
  shows "sint (tv_sec tv) - sint (tv_sec prev) \<le> 15"
  using assms by (auto simp: delta_us_def valid_tv_def)

lemma irq_handler_active:
  "sense d \<noteq> - 1 \<Longrightarrow> irq_handler signal tv d =
     (frbwrite (irq_record signal tv d) (d\<lparr> sense := snd (irq_data signal tv d) \<rparr>))\<lparr> lasttv := tv \<rparr>"
  by (simp add: irq_handler_def Let_def)

lemma frbwrite_sense [simp]: "sense (frbwrite l d) = sense d"
  by (simp add: frbwrite_def Let_def)

text \<open>
  C3, as the claim states it, fails: the tag is the other way round.  With an
  active-low receiver (\<open>sense = 1\<close>) and the line read low (\<open>signal = 0\<close>), 600
  microseconds after the previous edge, \<open>signal XOR sense\<close> is true and the record
  handed to the noise filter is \<open>600\<close> without the pulse bit: a SPACE.
\<close>

theorem irq_handler_xor_true_is_space:
  "sense (driver_init\<lparr> sense := 1, lasttv := \<lparr> tv_sec = 1000, tv_usec = 500000 \<rparr> \<rparr>) \<noteq> - 1
   \<and> \<not> clock_regression \<lparr> tv_sec = 1000, tv_usec = 500000 \<rparr> \<lparr> tv_sec = 1000, tv_usec = 500600 \<rparr>
   \<and> delta_us \<lparr> tv_sec = 1000, tv_usec = 500000 \<rparr> \<lparr> tv_sec = 1000, tv_usec = 500600 \<rparr> = 600
   \<and> (0 :: c_int) XOR 1 \<noteq> 0
   \<and> irq_record 0 \<lparr> tv_sec = 1000, tv_usec = 500600 \<rparr>
         (driver_init\<lparr> sense := 1, lasttv := \<lparr> tv_sec = 1000, tv_usec = 500000 \<rparr> \<rparr>) = 600
   \<and> \<not> record_is_pulse (irq_record 0 \<lparr> tv_sec = 1000, tv_usec = 500600 \<rparr>
         (driver_init\<lparr> sense := 1, lasttv := \<lparr> tv_sec = 1000, tv_usec = 500000 \<rparr> \<rparr>))"
  by (simp add: irq_record_def irq_data_def clock_regression_def delta_us_def
      record_is_pulse_def PULSE_BIT_def word_sless_alt)

text \<open>
  C3, amended: for every edge processed by the receive decoder (\<open>sense\<close> is set)
  with no clock regression and an inter-edge delta of at most 15,000,000 microseconds,
  the record handed to the noise filter has magnitude equal to delta and is tagged
  SPACE exactly when the sampled line level XOR the sense polarity bit is true, and
  tagged PULSE when it is zero; \<open>sense\<close> is not changed and the time of the edge is
  stored.
\<close>

theorem irq_handler_duration:
  assumes "sense d \<noteq> - 1" and "valid_tv (lasttv d)" and "valid_tv tv"
    and "\<not> clock_regression (lasttv d) tv" and "delta_us (lasttv d) tv \<le> 15000000"
  shows "irq_handler signal tv d = (frbwrite (irq_record signal tv d) d)\<lparr> lasttv := tv \<rparr>
         \<and> uint (record_value (irq_record signal tv d)) = delta_us (lasttv d) tv
         \<and> (record_is_pulse (irq_record signal tv d) \<longleftrightarrow> signal XOR sense d = 0)"
proof -
  note s = timeout_seconds [OF assms(2,3,5)]
  note data = irq_data_normal [OF assms(2,3,4) s, of signal]
  note b = delta_us_bounds [OF assms(2,3,4) s]
  have u: "uint (word_of_int (delta_us (lasttv d) tv) :: c_int) = delta_us (lasttv d) tv"
    using b by (intro uint_int_of_small) simp_all
  then have small: "uint (word_of_int (delta_us (lasttv d) tv) :: c_int) < 2 ^ 24"
    using b by simp
  have "irq_handler signal tv d = (frbwrite (irq_record signal tv d) d)\<lparr> lasttv := tv \<rparr>"
    using assms(1) by (simp add: irq_handler_active data)
  moreover have "uint (record_value (irq_record signal tv d)) = delta_us (lasttv d) tv"
    using record_value_small [OF small] u by (simp add: irq_record_def data)
  moreover have "record_is_pulse (irq_record signal tv d) \<longleftrightarrow> signal XOR sense d = 0"
    using record_is_pulse_small [OF small] by (simp add: irq_record_def data)
  ultimately show ?thesis by simp
qed

theorem irq_handler_duration_witness:
  "sense (driver_init\<lparr> sense := 1, lasttv := \<lparr> tv_sec = 1000, tv_usec = 500000 \<rparr> \<rparr>) \<noteq> - 1
   \<and> valid_tv \<lparr> tv_sec = 1000, tv_usec = 500000 \<rparr>
   \<and> valid_tv \<lparr> tv_sec = 1000, tv_usec = 500600 \<rparr>
   \<and> \<not> clock_regression \<lparr> tv_sec = 1000, tv_usec = 500000 \<rparr> \<lparr> tv_sec = 1000, tv_usec = 500600 \<rparr>
   \<and> delta_us \<lparr> tv_sec = 1000, tv_usec = 500000 \<rparr> \<lparr> tv_sec = 1000, tv_usec = 500600 \<rparr>
       \<le> 15000000
   \<and> uint (record_value (irq_record 1 \<lparr> tv_sec = 1000, tv_usec = 500600 \<rparr>
         (driver_init\<lparr> sense := 1, lasttv := \<lparr> tv_sec = 1000, tv_usec = 500000 \<rparr> \<rparr>))) = 600
   \<and> record_is_pulse (irq_record 1 \<lparr> tv_sec = 1000, tv_usec = 500600 \<rparr>
         (driver_init\<lparr> sense := 1, lasttv := \<lparr> tv_sec = 1000, tv_usec = 500000 \<rparr> \<rparr>))"
proof -
  let ?prev = "\<lparr> tv_sec = 1000, tv_usec = 500000 \<rparr>"
  let ?tv = "\<lparr> tv_sec = 1000, tv_usec = 500600 \<rparr>"
  let ?d = "driver_init\<lparr> sense := 1, lasttv := ?prev \<rparr>"
  have h1: "sense ?d \<noteq> - 1" by simp
  have h2: "valid_tv (lasttv ?d)" by (simp add: valid_tv_def)
  have h3: "valid_tv ?tv" by (simp add: valid_tv_def)
  have h4: "\<not> clock_regression (lasttv ?d) ?tv" by (simp add: clock_regression_def)
  have h5: "delta_us (lasttv ?d) ?tv \<le> 15000000" by (simp add: delta_us_def)
  have v: "delta_us (lasttv ?d) ?tv = 600" by (simp add: delta_us_def)
  note t = irq_handler_duration [OF h1 h2 h3 h4 h5, of 1]
  from t v have c1: "uint (record_value (irq_record 1 ?tv ?d)) = 600" by simp
  from t have c2: "record_is_pulse (irq_record 1 ?tv ?d)" by simp
  show ?thesis using h1 h2 h3 h4 h5 c1 c2 by simp
qed

text \<open>
  C5, as the claim states it, fails in the tag: after a clock regression the record
  has the maximum magnitude, but whether it is a PULSE or a SPACE follows the line
  level as on every edge.  With \<open>sense = 1\<close> and the line read low, the clock going
  back from second 10 to second 5 yields \<open>PULSE_MASK\<close> without the pulse bit: a
  SPACE.
\<close>

theorem irq_handler_regression_space:
  "sense (driver_init\<lparr> sense := 1, lasttv := \<lparr> tv_sec = 10, tv_usec = 0 \<rparr> \<rparr>) \<noteq> - 1
   \<and> clock_regression \<lparr> tv_sec = 10, tv_usec = 0 \<rparr> \<lparr> tv_sec = 5, tv_usec = 0 \<rparr>
   \<and> irq_record 0 \<lparr> tv_sec = 5, tv_usec = 0 \<rparr>
         (driver_init\<lparr> sense := 1, lasttv := \<lparr> tv_sec = 10, tv_usec = 0 \<rparr> \<rparr>) = PULSE_MASK
   \<and> \<not> record_is_pulse (irq_record 0 \<lparr> tv_sec = 5, tv_usec = 0 \<rparr>
         (driver_init\<lparr> sense := 1, lasttv := \<lparr> tv_sec = 10, tv_usec = 0 \<rparr> \<rparr>))"
  by (simp add: irq_record_def irq_data_def clock_regression_def record_is_pulse_def
      PULSE_BIT_def PULSE_MASK_def)

text \<open>
  C5, amended: for every edge processed by the receive decoder where the current
  timestamp is earlier than the stored last timestamp, the decoder hands the noise
  filter one record, and stores the time of the edge; that record has the maximum
  magnitude \<open>PULSE_MASK\<close> and is tagged PULSE exactly when the sampled line level
  XOR the sense polarity bit is zero (and SPACE otherwise); the sense polarity state
  is not modified.
\<close>

theorem irq_handler_regression:
  assumes "sense d \<noteq> - 1" and "clock_regression (lasttv d) tv"
  shows "irq_handler signal tv d = (frbwrite (irq_record signal tv d) d)\<lparr> lasttv := tv \<rparr>
         \<and> record_value (irq_record signal tv d) = PULSE_MASK
         \<and> (record_is_pulse (irq_record signal tv d) \<longleftrightarrow> signal XOR sense d = 0)
         \<and> sense (irq_handler signal tv d) = sense d"
proof -
  have data: "irq_data signal tv d = (PULSE_MASK, sense d)"
    using assms(2) by (simp add: irq_data_def regress_iff Let_def)
  have v: "record_value PULSE_MASK = PULSE_MASK" by (simp add: record_value_def)
  have p: "\<not> record_is_pulse PULSE_MASK"
    by (simp add: record_is_pulse_def PULSE_MASK_def PULSE_BIT_def)
  have h: "irq_handler signal tv d = (frbwrite (irq_record signal tv d) d)\<lparr> lasttv := tv \<rparr>"
    using assms(1) by (simp add: irq_handler_active data)
  have "record_value (irq_record signal tv d) = PULSE_MASK"
    using v by (simp add: irq_record_def data)
  moreover have "record_is_pulse (irq_record signal tv d) \<longleftrightarrow> signal XOR sense d = 0"
    using p by (simp add: irq_record_def data)
  moreover have "sense (irq_handler signal tv d) = sense d"
    by (simp add: h)
  ultimately show ?thesis using h by simp
qed

theorem irq_handler_regression_witness:
  "sense (driver_init\<lparr> sense := 1, lasttv := \<lparr> tv_sec = 10, tv_usec = 0 \<rparr> \<rparr>) \<noteq> - 1
   \<and> clock_regression \<lparr> tv_sec = 10, tv_usec = 0 \<rparr> \<lparr> tv_sec = 5, tv_usec = 0 \<rparr>
   \<and> irq_handler 1 \<lparr> tv_sec = 5, tv_usec = 0 \<rparr>
         (driver_init\<lparr> sense := 1, lasttv := \<lparr> tv_sec = 10, tv_usec = 0 \<rparr> \<rparr>)
       = (frbwrite (irq_record 1 \<lparr> tv_sec = 5, tv_usec = 0 \<rparr>
                      (driver_init\<lparr> sense := 1, lasttv := \<lparr> tv_sec = 10, tv_usec = 0 \<rparr> \<rparr>))
            (driver_init\<lparr> sense := 1, lasttv := \<lparr> tv_sec = 10, tv_usec = 0 \<rparr> \<rparr>))
           \<lparr> lasttv := \<lparr> tv_sec = 5, tv_usec = 0 \<rparr> \<rparr>
   \<and> record_value (irq_record 1 \<lparr> tv_sec = 5, tv_usec = 0 \<rparr>
         (driver_init\<lparr> sense := 1, lasttv := \<lparr> tv_sec = 10, tv_usec = 0 \<rparr> \<rparr>)) = PULSE_MASK
   \<and> record_is_pulse (irq_record 1 \<lparr> tv_sec = 5, tv_usec = 0 \<rparr>
         (driver_init\<lparr> sense := 1, lasttv := \<lparr> tv_sec = 10, tv_usec = 0 \<rparr> \<rparr>))
   \<and> sense (irq_handler 1 \<lparr> tv_sec = 5, tv_usec = 0 \<rparr>
         (driver_init\<lparr> sense := 1, lasttv := \<lparr> tv_sec = 10, tv_usec = 0 \<rparr> \<rparr>)) = 1"
proof -
  let ?tv = "\<lparr> tv_sec = 5, tv_usec = 0 \<rparr>"
  let ?d = "driver_init\<lparr> sense := 1, lasttv := \<lparr> tv_sec = 10, tv_usec = 0 \<rparr> \<rparr>"
  have h1: "sense ?d \<noteq> - 1" by simp
  have h2: "clock_regression (lasttv ?d) ?tv" by (simp add: clock_regression_def)
  note t = irq_handler_regression [OF h1 h2, of 1]
  from t have c0: "irq_handler 1 ?tv ?d = (frbwrite (irq_record 1 ?tv ?d) ?d)\<lparr> lasttv := ?tv \<rparr>"
    by blast
  from t have c1: "record_value (irq_record 1 ?tv ?d) = PULSE_MASK" by blast
  from t have c2: "record_is_pulse (irq_record 1 ?tv ?d)" by simp
  from t have c3: "sense (irq_handler 1 ?tv ?d) = 1" by simp
  have l: "lasttv ?d = \<lparr> tv_sec = 10, tv_usec = 0 \<rparr>" by simp
  show ?thesis using h1 h2 c0 c1 c2 c3 unfolding l by blast
qed

section \<open>Sense calibrator: the vote\<close>

lemma fold_vote:
  "fst (fold (vote samples) xs ((a, b), h)) =
     (a + of_nat (length (filter (\<lambda>i. samples i \<noteq> 0) xs)),
      b + of_nat (length (filter (\<lambda>i. samples i = 0) xs)))"
  by (induction xs arbitrary: a b h) (simp_all add: vote_def)

lemma vote_counts:
  "fst (fold (vote samples) [0..<9] ((0, 0), h)) =
     (of_nat (count_high samples), of_nat (count_low samples))"
  unfolding count_high_def count_low_def by (simp only: fold_vote) simp

lemma count_sum: "count_low samples + count_high samples = 9"
  unfolding count_low_def count_high_def
  using sum_length_filter_compl [of "\<lambda>i. samples i = 0" "[0..<9]"] by simp

lemma sint_small_nat: "k \<le> 9 \<Longrightarrow> sint (of_nat k :: 32 word) = int k"
  by (simp add: signed_of_nat signed_take_bit_int_eq_self)

lemma vote_sle:
  "(of_nat (count_low samples) :: c_int) \<le>s of_nat (count_high samples)
     \<longleftrightarrow> count_low samples \<le> count_high samples"
proof -
  have "count_low samples \<le> 9" "count_high samples \<le> 9"
    using count_sum [of samples] by simp_all
  then show ?thesis by (simp add: word_sle_eq sint_small_nat)
qed

lemma init_port_auto:
  assumes "sense d = - 1"
  shows "fst (init_port True q samples d h) = 0"
    and "fst (snd (init_port True q samples d h)) =
           d\<lparr> irq_num := q,
               sense := (if count_low samples \<le> count_high samples then 1 else 0) \<rparr>"
proof -
  obtain r h3 where f: "fold (vote samples) [0..<9] ((0, 0), msleep 500 (set_all d (invert d) h)) = (r, h3)"
    by (cases "fold (vote samples) [0..<9] ((0, 0), msleep 500 (set_all d (invert d) h))")
  have r: "r = (of_nat (count_high samples), of_nat (count_low samples))"
    using vote_counts [of samples "msleep 500 (set_all d (invert d) h)"] f by simp
  show "fst (init_port True q samples d h) = 0"
    using assms by (simp add: init_port_def Let_def f r)
  show "fst (snd (init_port True q samples d h)) =
           d\<lparr> irq_num := q,
               sense := (if count_low samples \<le> count_high samples then 1 else 0) \<rparr>"
    using assms by (simp add: init_port_def Let_def f r vote_sle)
qed

text \<open>
  C2, as the claim states it, fails: the vote goes the other way.  \<open>init_port\<close>
  counts a reading of the line as high in \<open>nlow\<close> (a vote for an active-low
  receiver, whose line idles high) and a reading as low in \<open>nhigh\<close>.  A line read
  low on the first 6 of the 9 samples and high on the last 3 has more low samples than
  high ones and resolves to \<open>sense = 0\<close>, ActiveHigh.
\<close>

theorem init_port_six_low_is_active_high:
  "sense driver_init = - 1
   \<and> count_low (\<lambda>i. if i < 6 then 0 else 1) = 6
   \<and> count_high (\<lambda>i. if i < 6 then 0 else 1) = 3
   \<and> sense (fst (snd (init_port True 0 (\<lambda>i. if i < 6 then 0 else 1) driver_init hw_init))) = 0"
proof -
  have s: "sense driver_init = - 1" by (simp add: driver_init_def)
  have l: "count_low (\<lambda>i. if i < 6 then 0 else 1) = 6" by (simp add: count_low_def upt_rec)
  have g: "count_high (\<lambda>i. if i < 6 then 0 else 1) = 3" by (simp add: count_high_def upt_rec)
  show ?thesis using s l g by (simp add: init_port_auto(2) [OF s])
qed

text \<open>
  C2, amended: for every sequence of 9 sampled input-line levels observed by the
  sense calibrator in auto mode (\<open>sense = -1\<close>), the calibrator sets polarity to
  ActiveLow (\<open>sense = 1\<close>) when the count of high samples is greater than or equal to
  the count of low samples, and to ActiveHigh (\<open>sense = 0\<close>) otherwise; the two
  counts add up to 9, so they are never equal; in particular, a line returning low on
  6 of the 9 samples resolves to ActiveHigh.
\<close>

theorem init_port_majority:
  assumes "sense d = - 1"
  shows "fst (init_port True q samples d h) = 0
         \<and> sense (fst (snd (init_port True q samples d h)))
             = (if count_low samples \<le> count_high samples then 1 else 0)
         \<and> count_low samples + count_high samples = 9
         \<and> (count_low samples = 6 \<longrightarrow> sense (fst (snd (init_port True q samples d h))) = 0)"
  using count_sum [of samples] by (auto simp: init_port_auto [OF assms])

theorem init_port_majority_witness:
  "sense driver_init = - 1
   \<and> count_low (\<lambda>i. if 3 \<le> i then 0 else 1) = 6
   \<and> fst (init_port True 0 (\<lambda>i. if 3 \<le> i then 0 else 1) driver_init hw_init) = 0
   \<and> sense (fst (snd (init_port True 0 (\<lambda>i. if 3 \<le> i then 0 else 1) driver_init hw_init))) = 0"
proof -
  have h1: "sense driver_init = - 1" by (simp add: driver_init_def)
  have h2: "count_low (\<lambda>i. if 3 \<le> i then 0 else 1) = 6" by (simp add: count_low_def upt_rec)
  note t = init_port_majority [OF h1, of 0 "\<lambda>i. if 3 \<le> i then 0 else 1" hw_init]
  from t have c1: "fst (init_port True 0 (\<lambda>i. if 3 \<le> i then 0 else 1) driver_init hw_init) = 0"
    by blast
  from t h2 have c2:
    "sense (fst (snd (init_port True 0 (\<lambda>i. if 3 \<le> i then 0 else 1) driver_init hw_init))) = 0"
    by blast
  show ?thesis using h1 h2 c1 c2 by blast
qed

section \<open>Control operations: the transmitter mask\<close>

lemma shift_mask: "(2 ^ n - 1 :: 32 word) = mask n"
  by (simp add: mask_eq_exp_minus_1)

lemma and_mask_neq_iff: "(v :: 32 word) AND mask n \<noteq> v \<longleftrightarrow> selects_beyond v n"
proof -
  have "v AND mask n = v \<longleftrightarrow> (\<forall>i. bit v i \<longrightarrow> i < n)"
  proof
    assume eq: "v AND mask n = v"
    show "\<forall>i. bit v i \<longrightarrow> i < n"
    proof (intro allI impI)
      fix i assume "bit v i"
      then have "bit (v AND mask n) i" by (simp add: eq)
      then show "i < n" by (simp add: bit_and_iff bit_mask_iff)
    qed
  next
    assume "\<forall>i. bit v i \<longrightarrow> i < n"
    then show "v AND mask n = v"
      by (intro bit_word_eqI) (auto simp: bit_and_iff bit_mask_iff)
  qed
  also have "\<dots> \<longleftrightarrow> \<not> selects_beyond v n"
  proof -
    have len: "i < 32" if "bit v i" for i
      using bit_imp_le_length [OF that] by simp
    show ?thesis
      unfolding selects_beyond_def using len by (auto simp: not_less)
  qed
  finally show ?thesis by simp
qed

lemma sint_count:
  assumes "unat (n :: 32 word) \<le> 8"
  shows "sint n = int (unat n)"
proof -
  have "sint (of_nat (unat n) :: 32 word) = int (unat n)"
    using assms by (intro sint_small_nat) simp
  then show ?thesis by simp
qed

text \<open>
  C9: with the transmitter count within the bound of the pin array
  (\<open>LIRC_TEGRA_MAX_TRANSMITTERS\<close>), for every value passed to
  \<open>LIRC_SET_TRANSMITTER_MASK\<close> that selects a line at or beyond the transmitter
  count, the operation returns the transmitter count and leaves the driver state,
  \<open>tx_mask\<close> included, unchanged; for every value selecting only configured lines,
  it stores the value in \<open>tx_mask\<close> and returns 0.
\<close>

theorem lirc_ioctl_set_transmitter_mask:
  assumes "unat (n_transmitters d) \<le> LIRC_TEGRA_MAX_TRANSMITTERS"
  shows "(selects_beyond v (unat (n_transmitters d)) \<longrightarrow>
            lirc_ioctl fop LIRC_SET_TRANSMITTER_MASK (Inr v) d = (int (unat (n_transmitters d)), d))
         \<and> (\<not> selects_beyond v (unat (n_transmitters d)) \<longrightarrow>
            lirc_ioctl fop LIRC_SET_TRANSMITTER_MASK (Inr v) d = (0, d\<lparr> tx_mask := v \<rparr>))"
  using assms
  by (simp add: lirc_ioctl_def shift_mask and_mask_neq_iff sint_count
      LIRC_TEGRA_MAX_TRANSMITTERS_def)

theorem lirc_ioctl_set_transmitter_mask_witness:
  "unat (n_transmitters driver_init) \<le> LIRC_TEGRA_MAX_TRANSMITTERS
   \<and> selects_beyond 2 (unat (n_transmitters driver_init))
   \<and> lirc_ioctl 0 LIRC_SET_TRANSMITTER_MASK (Inr 2) driver_init = (1, driver_init)
   \<and> \<not> selects_beyond 1 (unat (n_transmitters driver_init))
   \<and> lirc_ioctl 0 LIRC_SET_TRANSMITTER_MASK (Inr 1) driver_init
       = (0, driver_init\<lparr> tx_mask := 1 \<rparr>)"
proof -
  have n: "unat (n_transmitters driver_init) = 1" by (simp add: driver_init_def)
  have h: "unat (n_transmitters driver_init) \<le> LIRC_TEGRA_MAX_TRANSMITTERS"
    by (simp add: n LIRC_TEGRA_MAX_TRANSMITTERS_def)
  have b: "selects_beyond 2 (unat (n_transmitters driver_init))"
    unfolding n and_mask_neq_iff [symmetric] by (simp add: mask_eq_exp_minus_1)
  have nb: "\<not> selects_beyond 1 (unat (n_transmitters driver_init))"
    unfolding n and_mask_neq_iff [symmetric] by (simp add: mask_eq_exp_minus_1)
  from lirc_ioctl_set_transmitter_mask [OF h, of 2 0] b
  have c1: "lirc_ioctl 0 LIRC_SET_TRANSMITTER_MASK (Inr 2) driver_init = (1, driver_init)"
    by (simp add: n)
  from lirc_ioctl_set_transmitter_mask [OF h, of 1 0] nb
  have c2: "lirc_ioctl 0 LIRC_SET_TRANSMITTER_MASK (Inr 1) driver_init
              = (0, driver_init\<lparr> tx_mask := 1 \<rparr>)"
    by simp
  show ?thesis using h b nb c1 c2 by blast
qed

section \<open>Transmitter: a space drives the lines idle first\<close>

lemma trace_fold_set:
  "trace (fold (\<lambda>i h. if en i then gpio_set (pin i) v h else h) xs h)
     = trace h @ map (\<lambda>i. Set (pin i) v) (filter en xs)"
  by (induction xs arbitrary: h) (simp_all add: gpio_set_def)

lemma levels_fold_set:
  "levels (fold (\<lambda>i h. if en i then gpio_set (pin i) v h else h) xs h) p
     = (if \<exists>i \<in> set xs. en i \<and> pin i = p then v else levels h p)"
  by (induction xs arbitrary: h) (auto simp: gpio_set_def)

lemma trace_set_enabled:
  "trace (set_enabled d v h) = trace h @
     map (\<lambda>i. Set (gpio_out_pin d ! i) v)
       (filter (transmitter_enabled d) [0..<unat (n_transmitters d)])"
  unfolding set_enabled_def by (rule trace_fold_set)

lemma levels_set_enabled:
  "i < unat (n_transmitters d) \<Longrightarrow> transmitter_enabled d i \<Longrightarrow>
     levels (set_enabled d v h) (gpio_out_pin d ! i) = v"
  unfolding set_enabled_def by (subst levels_fold_set) auto

lemma safe_udelay_trace:
  "\<exists>ws. trace (safe_udelay usecs h) = trace h @ ws \<and> list_all is_udelay ws"
proof (induction usecs h rule: safe_udelay.induct)
  case (1 usecs h)
  show ?case
  proof (cases "MAX_UDELAY_US < usecs")
    case True
    from 1 [OF True] obtain ws where
      "trace (safe_udelay (usecs - MAX_UDELAY_US) (udelay MAX_UDELAY_US h))
         = trace (udelay MAX_UDELAY_US h) @ ws" "list_all is_udelay ws"
      by blast
    then have "trace (safe_udelay usecs h) = trace h @ (Udelay MAX_UDELAY_US # ws)
               \<and> list_all is_udelay (Udelay MAX_UDELAY_US # ws)"
      using True by (subst safe_udelay.simps) (simp add: udelay_def is_udelay_def)
    then show ?thesis by blast
  next
    case False
    then have "trace (safe_udelay usecs h) = trace h @ [Udelay usecs]
               \<and> list_all is_udelay [Udelay usecs]"
      by (subst safe_udelay.simps) (simp add: udelay_def is_udelay_def)
    then show ?thesis by blast
  qed
qed

lemma safe_udelay_levels: "levels (safe_udelay usecs h) = levels h"
proof (induction usecs h rule: safe_udelay.induct)
  case (1 usecs h)
  show ?case
  proof (cases "MAX_UDELAY_US < usecs")
    case True
    with 1 [OF True] show ?thesis by (subst safe_udelay.simps) (simp add: udelay_def)
  next
    case False
    then show ?thesis by (subst safe_udelay.simps) (simp add: udelay_def)
  qed
qed

text \<open>
  C10: for every call to \<open>send_space\<close>, what it does to the outside world is, in
  this order: one write of the idle level (\<open>invert\<close>) to every enabled output line,
  then waits only.  When the requested duration is zero or negative there is no wait
  at all.  In both cases every enabled line is at the idle level when the function
  returns.
\<close>

theorem send_space_idle_first:
  "(\<exists>ws. trace (send_space len d h) = trace h @ idle_sets d @ ws
          \<and> list_all is_udelay ws \<and> (len \<le>s 0 \<longrightarrow> ws = []))
   \<and> (\<forall>i < unat (n_transmitters d). transmitter_enabled d i \<longrightarrow>
          levels (send_space len d h) (gpio_out_pin d ! i) = invert d)"
proof (cases "len \<le>s 0")
  case True
  then have s: "send_space len d h = set_enabled d (invert d) h"
    by (simp add: send_space_def)
  have "trace (send_space len d h) = trace h @ idle_sets d @ []"
    by (simp add: s trace_set_enabled idle_sets_def)
  then have "\<exists>ws. trace (send_space len d h) = trace h @ idle_sets d @ ws
          \<and> list_all is_udelay ws \<and> (len \<le>s 0 \<longrightarrow> ws = [])"
    by (intro exI [of _ "[]"]) simp
  then show ?thesis by (simp add: s levels_set_enabled)
next
  case False
  then have s: "send_space len d h = safe_udelay len (set_enabled d (invert d) h)"
    by (simp add: send_space_def)
  obtain ws where ws: "trace (safe_udelay len (set_enabled d (invert d) h))
      = trace (set_enabled d (invert d) h) @ ws" "list_all is_udelay ws"
    using safe_udelay_trace by blast
  have "trace (send_space len d h) = trace h @ idle_sets d @ ws"
    by (simp add: s ws trace_set_enabled idle_sets_def)
  then have "\<exists>ws. trace (send_space len d h) = trace h @ idle_sets d @ ws
          \<and> list_all is_udelay ws \<and> (len \<le>s 0 \<longrightarrow> ws = [])"
    using ws(2) False by blast
  then show ?thesis by (simp add: s safe_udelay_levels levels_set_enabled)
qed

theorem send_space_idle_first_witness:
  "(- 5 :: c_long) \<le>s 0
   \<and> 2 < unat (n_transmitters (driver_init\<lparr> gpio_out_pin := [200, 201, 202, - 1, - 1, - 1, - 1, - 1],
              n_transmitters := 3, invert := True, tx_mask := 5 \<rparr>))
   \<and> transmitter_enabled (driver_init\<lparr> gpio_out_pin := [200, 201, 202, - 1, - 1, - 1, - 1, - 1],
              n_transmitters := 3, invert := True, tx_mask := 5 \<rparr>) 2
   \<and> trace (send_space (- 5)
        (driver_init\<lparr> gpio_out_pin := [200, 201, 202, - 1, - 1, - 1, - 1, - 1],
              n_transmitters := 3, invert := True, tx_mask := 5 \<rparr>) hw_init)
       = [Set 200 True, Set 202 True]
   \<and> levels (send_space (- 5)
        (driver_init\<lparr> gpio_out_pin := [200, 201, 202, - 1, - 1, - 1, - 1, - 1],
              n_transmitters := 3, invert := True, tx_mask := 5 \<rparr>) hw_init) 202"
proof -
  let ?d = "driver_init\<lparr> gpio_out_pin := [200, 201, 202, - 1, - 1, - 1, - 1, - 1],
              n_transmitters := 3, invert := True, tx_mask := 5 \<rparr>"
  have h1: "(- 5 :: c_long) \<le>s 0" by (simp add: word_sle_eq)
  have h2: "2 < unat (n_transmitters ?d)" by simp
  have h3: "transmitter_enabled ?d 2" by (simp add: transmitter_enabled_def)
  have i: "idle_sets ?d = [Set 200 True, Set 202 True]"
    by (simp add: idle_sets_def transmitter_enabled_def upt_rec)
  note t = send_space_idle_first [of "- 5" ?d hw_init]
  from t h1 i have c1: "trace (send_space (- 5) ?d hw_init) = [Set 200 True, Set 202 True]"
    by (auto simp: hw_init_def)
  from t h2 h3 have "levels (send_space (- 5) ?d hw_init) (gpio_out_pin ?d ! 2) = invert ?d"
    by blast
  then have c2: "levels (send_space (- 5) ?d hw_init) 202" by simp
  show ?thesis using h1 h2 h3 c1 c2 by blast
qed

section \<open>Transmit request: the length check\<close>

lemma even_sint: "even (sint (c :: 32 word)) \<longleftrightarrow> even c"
proof -
  have "bit (sint c) 0 \<longleftrightarrow> bit c 0" by (simp add: bit_sint_iff)
  then show ?thesis by (simp add: bit_0)
qed

lemma smod2_cases: "(k :: int) smod 2 = 0 \<or> k smod 2 = 1 \<or> k smod 2 = - 1"
  unfolding signed_modulo_int_def sgn_if abs_if by presburger

lemma smod2: "(k :: int) smod 2 = 0 \<longleftrightarrow> even k"
  unfolding signed_modulo_int_def sgn_if abs_if by presburger

lemma smod2_word: "(word_of_int ((k :: int) smod 2) :: 32 word) = 0 \<longleftrightarrow> k smod 2 = 0"
  using smod2_cases [of k] by auto

lemma smod_int_2: "smod_int c 2 = 0 \<longleftrightarrow> even c"
  unfolding smod_int_def by (simp add: smod2_word smod2 even_sint)

lemma even_ucast: "even (ucast (w :: 64 word) :: 32 word) \<longleftrightarrow> even w"
proof -
  have "bit (ucast w :: 32 word) 0 \<longleftrightarrow> bit w 0" by (simp add: bit_ucast_iff)
  then show ?thesis by (simp add: bit_0)
qed

lemma even_count: "even (ucast ((n :: 64 word) div 4) :: 32 word) \<longleftrightarrow> even (unat n div 4)"
proof -
  have "bit (unat (n div 4)) 0 \<longleftrightarrow> bit (n div 4) 0"
    by (simp only: bit_unsigned_iff) (simp add: possible_bit_def)
  then have "even (n div 4) \<longleftrightarrow> even (unat (n div 4))" by (simp add: bit_0)
  then show ?thesis by (simp add: even_ucast unat_div)
qed


lemma length_check:
  "n mod 4 = 0 \<Longrightarrow>
     (n mod 4 \<noteq> 0 \<or> smod_int (ucast ((n :: c_ulong) div 4)) 2 = 0)
       \<longleftrightarrow> even (unat n div 4)"
  by (simp add: smod_int_2 even_count)

lemma send_pulse_returns:
  "\<not> (softcarrier d \<and> 0 < freq d) \<Longrightarrow> \<exists>s. send_pulse len d h = Some s"
  by (auto simp: send_pulse_def)

lemma lirc_write_loop_returns:
  "\<not> (softcarrier d \<and> 0 < freq d) \<Longrightarrow> \<exists>s'. lirc_write_loop d w is s = Some s'"
proof (induction "is" arbitrary: s)
  case Nil
  then show ?case by simp
next
  case (Cons i "is")
  obtain delta h where s: "s = (delta, h)" by (cases s)
  show ?case
  proof (cases "i mod 2 \<noteq> 0")
    case True
    then show ?thesis using Cons.IH [OF Cons.prems] by (simp add: s)
  next
    case False
    obtain s1 where "send_pulse (scast (w i)) d h = Some s1"
      using send_pulse_returns [OF Cons.prems] by blast
    then show ?thesis using False Cons.IH [OF Cons.prems, of s1] by (simp add: s)
  qed
qed
lemma safe_udelay_short: "\<not> MAX_UDELAY_US < usecs \<Longrightarrow> safe_udelay usecs h = udelay usecs h"
  by (subst safe_udelay.simps) simp

text \<open>
  C1, as the claim states it, fails: the parity is the other way round.  The guard
  of \<open>lirc_write\<close> is \<open>n % sizeof(int) || count % 2 == 0\<close>.  A request of 4
  bytes, one duration (an odd count), is accepted: with the carrier off it drives the
  line active, waits, returns the line to idle and returns 4.  A request of 8 bytes,
  two durations, is rejected with \<open>-EINVAL\<close>.
\<close>

theorem lirc_write_one_entry_accepted:
  "(4 :: c_ulong) mod 4 = 0 \<and> odd (unat (4 :: c_ulong) div 4)
   \<and> map_option (\<lambda>(r, h'). (r, trace h'))
        (lirc_write 4 (Inr (\<lambda>_. 1000)) (driver_init\<lparr> softcarrier := False \<rparr>) hw_init)
       = Some (4, [Set 200 True, Udelay 1000, Set 200 False])
   \<and> (8 :: c_ulong) mod 4 = 0 \<and> even (unat (8 :: c_ulong) div 4)
   \<and> lirc_write 8 (Inr (\<lambda>_. 1000)) (driver_init\<lparr> softcarrier := False \<rparr>) hw_init
       = Some (- EINVAL, hw_init)"
  by (simp add: lirc_write_def smod_int_2 send_pulse_def safe_udelay_short set_enabled_def
      set_all_def gpio_set_def udelay_def transmitter_enabled_def driver_init_def hw_init_def
      MAX_UDELAY_US_def DEFAULT_GPIO_OUT_PIN_def INVALID_def)

text \<open>
  C1, amended: for every transmit request submitted to \<open>lirc_write\<close> whose byte
  length is a whole number of duration words and whose duration array has an even
  number of entries (none included), the request is rejected with \<open>-EINVAL\<close> and
  no output-line state is changed.  A request with an odd number of entries is not
  rejected on account of its length: it fails only with the error of the copy from
  user space, if that fails, and otherwise returns the byte count whenever the
  transmission ends, which it does when the carrier is not generated in software.
\<close>

theorem lirc_write_length:
  assumes "n mod 4 = 0"
  shows "(even (unat n div 4) \<longrightarrow> lirc_write n wbuf d h = Some (- EINVAL, h))
         \<and> (odd (unat n div 4) \<longrightarrow>
              lirc_write n (Inl e) d h = Some (e, h)
              \<and> (\<forall>r h'. lirc_write n (Inr w) d h = Some (r, h') \<longrightarrow> r = sint n)
              \<and> (\<not> (softcarrier d \<and> 0 < freq d) \<longrightarrow>
                    (\<exists>h'. lirc_write n (Inr w) d h = Some (sint n, h'))))"
proof (intro conjI impI)
  assume "even (unat n div 4)"
  then show "lirc_write n wbuf d h = Some (- EINVAL, h)"
    using length_check [OF assms] by (simp add: lirc_write_def Let_def)
next
  assume o: "odd (unat n div 4)"
  then show "lirc_write n (Inl e) d h = Some (e, h)"
    using length_check [OF assms] by (simp add: lirc_write_def Let_def)
  show "\<forall>r h'. lirc_write n (Inr w) d h = Some (r, h') \<longrightarrow> r = sint n"
    using o length_check [OF assms]
    by (auto simp: lirc_write_def Let_def bind_eq_Some_conv)
next
  assume o: "odd (unat n div 4)" and c: "\<not> (softcarrier d \<and> 0 < freq d)"
  obtain delta h1 where
    "lirc_write_loop d w [0..<nat (sint (ucast (n div 4) :: c_int))] (0, h) = Some (delta, h1)"
    using lirc_write_loop_returns [OF c] by (metis surj_pair)
  then show "\<exists>h'. lirc_write n (Inr w) d h = Some (sint n, h')"
    using o length_check [OF assms] by (simp add: lirc_write_def Let_def)
qed

theorem lirc_write_length_witness:
  "(8 :: c_ulong) mod 4 = 0 \<and> even (unat (8 :: c_ulong) div 4)
   \<and> lirc_write 8 (Inr (\<lambda>_. 1000)) driver_init hw_init = Some (- EINVAL, hw_init)
   \<and> (12 :: c_ulong) mod 4 = 0 \<and> odd (unat (12 :: c_ulong) div 4)
   \<and> \<not> (softcarrier (driver_init\<lparr> softcarrier := False \<rparr>)
          \<and> 0 < freq (driver_init\<lparr> softcarrier := False \<rparr>))
   \<and> (\<exists>h'. lirc_write 12 (Inr (\<lambda>_. 1000)) (driver_init\<lparr> softcarrier := False \<rparr>) hw_init
              = Some (12, h'))"
proof -
  have h8: "(8 :: c_ulong) mod 4 = 0" and e8: "even (unat (8 :: c_ulong) div 4)" by simp_all
  have h12: "(12 :: c_ulong) mod 4 = 0" and o12: "odd (unat (12 :: c_ulong) div 4)" by simp_all
  have c: "\<not> (softcarrier (driver_init\<lparr> softcarrier := False \<rparr>)
          \<and> 0 < freq (driver_init\<lparr> softcarrier := False \<rparr>))" by simp
  from lirc_write_length [OF h8, of "Inr (\<lambda>_. 1000)" driver_init hw_init] e8
  have c1: "lirc_write 8 (Inr (\<lambda>_. 1000)) driver_init hw_init = Some (- EINVAL, hw_init)"
    by blast
  from lirc_write_length [OF h12, of _ "driver_init\<lparr> softcarrier := False \<rparr>" hw_init _
      "\<lambda>_. 1000"] o12 c
  have "\<exists>h'. lirc_write 12 (Inr (\<lambda>_. 1000)) (driver_init\<lparr> softcarrier := False \<rparr>) hw_init
              = Some (sint (12 :: c_ulong), h')"
    by blast
  then have c2: "\<exists>h'. lirc_write 12 (Inr (\<lambda>_. 1000)) (driver_init\<lparr> softcarrier := False \<rparr>)
      hw_init = Some (12, h')"
    by simp
  show ?thesis using h8 e8 h12 o12 c c1 c2 by blast
qed

end
